theory Spec2Isabelle
  imports Complex_Main
begin

section \<open>Logistic regression on the low-level backend\<close>

text \<open>
  The notebook \<^verbatim>\<open>8 - Implementing models using the low-level backend\<close> builds a
  symbolic graph with the backend \<^verbatim>\<open>K\<close>, compiles it with \<^verbatim>\<open>K.function\<close> and runs
  it on a random batch. The graph is embedded as a datatype, one constructor per backend
  operation the notebook uses; the cells of the notebook are definitions over it.

  The backend itself is not part of the repository. Its element arithmetic (float32 in
  the notebook's run) and its automatic differentiation are parameters of the evaluator,
  collected in the record \<open>backend\<close>; what is fixed here is how a graph is evaluated,
  which shapes fit together, and when a compiled function writes its updates.
\<close>

subsection \<open>Symbolic expressions\<close>

datatype expr =
    Placeholder string "nat option list"
  | Variable string
  | Const real
  | Dot expr expr
  | Add expr expr
  | Sub expr expr
  | Mul expr expr
  | Sigmoid expr
  | Binary_crossentropy expr expr
  | Mean expr
  | Grad expr expr

text \<open>
  \<^verbatim>\<open>x = K.placeholder(shape=(None, 5))\<close>, \<^verbatim>\<open>y = K.placeholder(shape=(None, 1))\<close>:
  \<open>None\<close> is the batch dimension.
\<close>

definition x_ph :: expr where
  "x_ph = Placeholder ''x'' [None, Some 5]"

definition y_ph :: expr where
  "y_ph = Placeholder ''y'' [None, Some 1]"

text \<open>
  \<^verbatim>\<open>W = K.variable(0.01*np.random.randn(5, 1))\<close>, \<^verbatim>\<open>b = K.variable(np.zeros(1))\<close>:
  a variable is a named cell of the store; its current value lives there.
\<close>

definition W_var :: expr where
  "W_var = Variable ''W''"

definition b_var :: expr where
  "b_var = Variable ''b''"

text \<open>\<^verbatim>\<open>y_hat = K.sigmoid(K.dot(x, W) + b)\<close>\<close>

definition y_hat :: expr where
  "y_hat = Sigmoid (Add (Dot x_ph W_var) b_var)"

text \<open>\<^verbatim>\<open>loss = K.mean(K.binary_crossentropy(y_hat, y))\<close>\<close>

definition loss :: expr where
  "loss = Mean (Binary_crossentropy y_hat y_ph)"

definition params :: "expr list" where
  "params = [W_var, b_var]"

text \<open>\<^verbatim>\<open>K.gradients(loss, params)\<close>: one gradient node per parameter, in order.\<close>

definition K_gradients :: "expr \<Rightarrow> expr list \<Rightarrow> expr list" where
  "K_gradients l ps = map (Grad l) ps"

definition gradients :: "expr list" where
  "gradients = K_gradients loss params"

definition lr :: real where
  "lr = 0.1"

text \<open>
  The loop of the notebook, with \<open>acc\<close> the list \<^verbatim>\<open>updates\<close> it appends to:
  \<^verbatim>\<open>
  updates = []
  for p, g in zip([W, b], gradients):
      new_p = p - lr*g
      updates.append((p, new_p))
  \<close>
\<close>

fun updates_loop :: "(expr \<times> expr) list \<Rightarrow> (expr \<times> expr) list \<Rightarrow> (expr \<times> expr) list" where
  "updates_loop [] acc = acc"
| "updates_loop ((p, g) # rest) acc =
     (let new_p = Sub p (Mul (Const lr) g) in updates_loop rest (acc @ [(p, new_p)]))"

definition updates :: "(expr \<times> expr) list" where
  "updates = updates_loop (zip [W_var, b_var] gradients) []"

subsection \<open>Values, errors and the backend\<close>

text \<open>
  A tensor of up to two dimensions; a matrix is the list of its rows. A matrix with no
  rows is the empty list whatever its number of columns.
\<close>

datatype 'a tensor = Scalar 'a | Vector "'a list" | Matrix "'a list list"

datatype error =
    Missing_input string
  | Unbound_variable string
  | Wrong_rank
  | Shape_mismatch
  | Wrong_arity
  | Not_a_placeholder
  | Not_a_variable

type_synonym 'a feeds = "string \<Rightarrow> 'a tensor option"

type_synonym 'a store = "string \<Rightarrow> 'a tensor option"

text \<open>
  The parameters of the evaluator: the backend's arithmetic on elements, its
  reductions, and \<open>k_grad\<close>, the component \<open>(i, j)\<close> of the gradient of an expression
  with respect to another one under given inputs and variable values.
\<close>

record 'a backend =
  k_const :: "real \<Rightarrow> 'a"
  k_add :: "'a \<Rightarrow> 'a \<Rightarrow> 'a"
  k_sub :: "'a \<Rightarrow> 'a \<Rightarrow> 'a"
  k_mul :: "'a \<Rightarrow> 'a \<Rightarrow> 'a"
  k_sum :: "'a list \<Rightarrow> 'a"
  k_mean :: "'a list \<Rightarrow> 'a"
  k_sigmoid :: "'a \<Rightarrow> 'a"
  k_bce :: "'a \<Rightarrow> 'a \<Rightarrow> 'a"
  k_grad :: "expr \<Rightarrow> expr \<Rightarrow> 'a feeds \<Rightarrow> 'a store \<Rightarrow> nat \<Rightarrow> nat \<Rightarrow> 'a"

fun rank :: "'a tensor \<Rightarrow> nat" where
  "rank (Scalar a) = 0"
| "rank (Vector v) = 1"
| "rank (Matrix m) = 2"

fun map_tensor :: "('a \<Rightarrow> 'a) \<Rightarrow> 'a tensor \<Rightarrow> 'a tensor" where
  "map_tensor f (Scalar a) = Scalar (f a)"
| "map_tensor f (Vector v) = Vector (map f v)"
| "map_tensor f (Matrix m) = Matrix (map (map f) m)"

fun flatten :: "'a tensor \<Rightarrow> 'a list" where
  "flatten (Scalar a) = [a]"
| "flatten (Vector v) = v"
| "flatten (Matrix m) = concat m"

text \<open>
  Elementwise binary operations. A scalar combines with anything; a vector combines
  with a matrix row by row and must have the length of the rows; two tensors of the same
  rank must have the same shape. Nothing else is stretched.
\<close>

fun elementwise :: "('a \<Rightarrow> 'a \<Rightarrow> 'a) \<Rightarrow> 'a tensor \<Rightarrow> 'a tensor \<Rightarrow> error + 'a tensor" where
  "elementwise f (Scalar a) (Scalar c) = Inr (Scalar (f a c))"
| "elementwise f (Scalar a) (Vector v) = Inr (Vector (map (f a) v))"
| "elementwise f (Scalar a) (Matrix m) = Inr (Matrix (map (map (f a)) m))"
| "elementwise f (Vector v) (Scalar c) = Inr (Vector (map (\<lambda>e. f e c) v))"
| "elementwise f (Matrix m) (Scalar c) = Inr (Matrix (map (map (\<lambda>e. f e c)) m))"
| "elementwise f (Vector u) (Vector v) =
     (if length u = length v then Inr (Vector (map2 f u v)) else Inl Shape_mismatch)"
| "elementwise f (Matrix m) (Vector v) =
     (if \<forall>r \<in> set m. length r = length v
      then Inr (Matrix (map (\<lambda>r. map2 f r v) m)) else Inl Shape_mismatch)"
| "elementwise f (Vector v) (Matrix m) =
     (if \<forall>r \<in> set m. length r = length v
      then Inr (Matrix (map (\<lambda>r. map2 f v r) m)) else Inl Shape_mismatch)"
| "elementwise f (Matrix m) (Matrix n) =
     (if map length m = map length n
      then Inr (Matrix (map2 (map2 f) m n)) else Inl Shape_mismatch)"

text \<open>
  The matrix product, for the ranks the notebook uses it at (matrix by matrix): every
  row of the left operand must be as long as the right operand has rows. A left operand
  with no rows passes this check whatever number of columns the array it stands for has;
  the theorems below take a batch with no rows to have five columns.
\<close>

fun dot :: "'a backend \<Rightarrow> 'a tensor \<Rightarrow> 'a tensor \<Rightarrow> error + 'a tensor" where
  "dot K (Matrix A) (Matrix B) =
     (if \<forall>r \<in> set A. length r = length B
      then Inr (Matrix (map (\<lambda>r. map (\<lambda>c. k_sum K (map2 (k_mul K) r c)) (transpose B)) A))
      else Inl Shape_mismatch)"
| "dot K _ _ = Inl Wrong_rank"

text \<open>A gradient has the shape of the tensor it is taken with respect to.\<close>

fun shaped_like :: "'a tensor \<Rightarrow> (nat \<Rightarrow> nat \<Rightarrow> 'a) \<Rightarrow> 'a tensor" where
  "shaped_like (Scalar a) g = Scalar (g 0 0)"
| "shaped_like (Vector v) g = Vector (map (\<lambda>i. g i 0) [0..<length v])"
| "shaped_like (Matrix m) g =
     Matrix (map (\<lambda>(i, r). map (\<lambda>j. g i j) [0..<length r]) (enumerate 0 m))"

subsection \<open>Evaluating a graph\<close>

text \<open>
  A placeholder takes the tensor fed under its name, which must have the declared number
  of dimensions; a variable reads the store. Operands are evaluated left to right and the
  first error ends the evaluation. A gradient needs the value of the expression it
  differentiates, so that expression is evaluated first.
\<close>

fun eval :: "'a backend \<Rightarrow> 'a feeds \<Rightarrow> 'a store \<Rightarrow> expr \<Rightarrow> error + 'a tensor" where
  "eval K fd st (Placeholder n sh) =
     (case fd n of
        None \<Rightarrow> Inl (Missing_input n)
      | Some t \<Rightarrow> if rank t = length sh then Inr t else Inl Wrong_rank)"
| "eval K fd st (Variable n) =
     (case st n of None \<Rightarrow> Inl (Unbound_variable n) | Some t \<Rightarrow> Inr t)"
| "eval K fd st (Const c) = Inr (Scalar (k_const K c))"
| "eval K fd st (Dot a c) =
     (case eval K fd st a of Inl e \<Rightarrow> Inl e | Inr ta \<Rightarrow>
        (case eval K fd st c of Inl e \<Rightarrow> Inl e | Inr tc \<Rightarrow> dot K ta tc))"
| "eval K fd st (Add a c) =
     (case eval K fd st a of Inl e \<Rightarrow> Inl e | Inr ta \<Rightarrow>
        (case eval K fd st c of Inl e \<Rightarrow> Inl e | Inr tc \<Rightarrow> elementwise (k_add K) ta tc))"
| "eval K fd st (Sub a c) =
     (case eval K fd st a of Inl e \<Rightarrow> Inl e | Inr ta \<Rightarrow>
        (case eval K fd st c of Inl e \<Rightarrow> Inl e | Inr tc \<Rightarrow> elementwise (k_sub K) ta tc))"
| "eval K fd st (Mul a c) =
     (case eval K fd st a of Inl e \<Rightarrow> Inl e | Inr ta \<Rightarrow>
        (case eval K fd st c of Inl e \<Rightarrow> Inl e | Inr tc \<Rightarrow> elementwise (k_mul K) ta tc))"
| "eval K fd st (Sigmoid a) =
     (case eval K fd st a of Inl e \<Rightarrow> Inl e | Inr ta \<Rightarrow> Inr (map_tensor (k_sigmoid K) ta))"
| "eval K fd st (Binary_crossentropy a c) =
     (case eval K fd st a of Inl e \<Rightarrow> Inl e | Inr ta \<Rightarrow>
        (case eval K fd st c of Inl e \<Rightarrow> Inl e | Inr tc \<Rightarrow> elementwise (k_bce K) ta tc))"
| "eval K fd st (Mean a) =
     (case eval K fd st a of Inl e \<Rightarrow> Inl e | Inr ta \<Rightarrow> Inr (Scalar (k_mean K (flatten ta))))"
| "eval K fd st (Grad l w) =
     (case eval K fd st l of Inl e \<Rightarrow> Inl e | Inr lv \<Rightarrow>
        (case eval K fd st w of Inl e \<Rightarrow> Inl e | Inr tw \<Rightarrow>
           Inr (shaped_like tw (k_grad K l w fd st))))"

subsection \<open>Compiled functions\<close>

text \<open>
  \<^verbatim>\<open>K.function(inputs, output, updates=updates)\<close> gives a function of a list of
  arrays, one per input. A call with more arrays than inputs is refused. Otherwise the
  arrays are taken in order, each checked against the number of dimensions of its
  placeholder, and a missing array is noticed after those given; nothing is computed
  before all inputs are accepted. Then the call evaluates the output and the new value of
  every update under the values the variables have before the call, and writes the new
  values.
\<close>

fun bind_inputs :: "expr list \<Rightarrow> 'a tensor list \<Rightarrow> error + 'a feeds" where
  "bind_inputs [] [] = Inr Map.empty"
| "bind_inputs (Placeholder n sh # ins) (t # ts) =
     (if rank t = length sh
      then (case bind_inputs ins ts of Inl e \<Rightarrow> Inl e | Inr fd \<Rightarrow> Inr (fd(n \<mapsto> t)))
      else Inl Wrong_rank)"
| "bind_inputs (_ # ins) (t # ts) = Inl Not_a_placeholder"
| "bind_inputs _ _ = Inl Wrong_arity"

fun eval_updates ::
  "'a backend \<Rightarrow> 'a feeds \<Rightarrow> 'a store \<Rightarrow> (expr \<times> expr) list \<Rightarrow> error + (string \<times> 'a tensor) list" where
  "eval_updates K fd st [] = Inr []"
| "eval_updates K fd st ((Variable n, e) # us) =
     (case eval K fd st e of Inl err \<Rightarrow> Inl err | Inr v \<Rightarrow>
        (case eval_updates K fd st us of Inl err \<Rightarrow> Inl err | Inr vs \<Rightarrow> Inr ((n, v) # vs)))"
| "eval_updates K fd st (_ # us) = Inl Not_a_variable"

fun write_updates :: "(string \<times> 'a tensor) list \<Rightarrow> 'a store \<Rightarrow> 'a store" where
  "write_updates [] st = st"
| "write_updates ((n, v) # vs) st = write_updates vs (st(n \<mapsto> v))"

definition K_function ::
  "'a backend \<Rightarrow> expr list \<Rightarrow> expr \<Rightarrow> (expr \<times> expr) list \<Rightarrow>
     'a store \<Rightarrow> 'a tensor list \<Rightarrow> error + ('a tensor \<times> 'a store)" where
  "K_function K inputs output upds st args =
     (if length inputs < length args then Inl Wrong_arity
      else
        (case bind_inputs inputs args of Inl e \<Rightarrow> Inl e | Inr fd \<Rightarrow>
           (case eval K fd st output of Inl e \<Rightarrow> Inl e | Inr out \<Rightarrow>
              (case eval_updates K fd st upds of Inl e \<Rightarrow> Inl e | Inr news \<Rightarrow>
                 Inr (out, write_updates news st)))))"

text \<open>\<^verbatim>\<open>train_fn = K.function([x, y], loss, updates=updates)\<close>\<close>

definition train_fn :: "'a backend \<Rightarrow> 'a store \<Rightarrow> 'a tensor list \<Rightarrow> error + ('a tensor \<times> 'a store)" where
  "train_fn K = K_function K [x_ph, y_ph] loss updates"

text \<open>\<^verbatim>\<open>predict = K.function([x], y_hat)\<close>\<close>

definition predict :: "'a backend \<Rightarrow> 'a store \<Rightarrow> 'a tensor list \<Rightarrow> error + ('a tensor \<times> 'a store)" where
  "predict K = K_function K [x_ph] y_hat []"

subsection \<open>The training loop and the prediction cell\<close>

text \<open>
  What the notebook holds between cells: the values of the variables and the lines the
  training loop has printed (iteration and loss).
\<close>

record 'a session =
  vars :: "'a store"
  printed :: "(nat \<times> 'a tensor) list"

text \<open>
  \<^verbatim>\<open>
  for iteration in range(1000):
      iter_loss = train_fn([X_batch, y_batch])
      if iteration % 100 == 0:
          print('Iteration {} loss: {}'.format(iteration, iter_loss))
  \<close>
  There is no handler around the call: an error of \<open>train_fn\<close> ends the loop and is the
  result.
\<close>

fun training_loop ::
  "'a backend \<Rightarrow> 'a tensor \<Rightarrow> 'a tensor \<Rightarrow> nat list \<Rightarrow> 'a session \<Rightarrow> error + 'a session" where
  "training_loop K X_batch y_batch [] s = Inr s"
| "training_loop K X_batch y_batch (iteration # rest) s =
     (case train_fn K (vars s) [X_batch, y_batch] of
        Inl e \<Rightarrow> Inl e
      | Inr (iter_loss, st') \<Rightarrow>
          training_loop K X_batch y_batch rest
            \<lparr>vars = st',
             printed = (if iteration mod 100 = 0
                        then printed s @ [(iteration, iter_loss)] else printed s)\<rparr>)"

text \<open>
  The store after the cells that create the variables: \<open>W\<close> holds the random initial
  weights \<open>W0\<close>, \<open>b\<close> holds \<^verbatim>\<open>np.zeros(1)\<close>.
\<close>

definition initial_store :: "'a backend \<Rightarrow> 'a tensor \<Rightarrow> 'a store" where
  "initial_store K W0 = [''W'' \<mapsto> W0, ''b'' \<mapsto> Vector [k_const K 0]]"

text \<open>
  The cells from the training loop to \<^verbatim>\<open>predictions = predict([X_batch])\<close>, run in
  order on the random data \<open>W0\<close>, \<open>X_batch\<close>, \<open>y_batch\<close>.
\<close>

definition notebook ::
  "'a backend \<Rightarrow> 'a tensor \<Rightarrow> 'a tensor \<Rightarrow> 'a tensor \<Rightarrow> error + ('a tensor \<times> 'a session)" where
  "notebook K W0 X_batch y_batch =
     (case training_loop K X_batch y_batch [0..<1000] \<lparr>vars = initial_store K W0, printed = []\<rparr> of
        Inl e \<Rightarrow> Inl e
      | Inr s \<Rightarrow>
          (case predict K (vars s) [X_batch] of
             Inl e \<Rightarrow> Inl e
           | Inr (predictions, st') \<Rightarrow> Inr (predictions, s\<lparr>vars := st'\<rparr>)))"

subsection \<open>The accuracy cell\<close>

text \<open>
  \<^verbatim>\<open>accuracy = (y_batch == (predictions > 0.5).astype('int')).mean()*100\<close> is numpy on
  two-dimensional arrays. An array carries its shape (rows, columns) besides the list of
  its rows, so that an array without elements still has one.
\<close>

datatype 'a ndarray = Array nat nat "'a list list"

fun valid_array :: "'a ndarray \<Rightarrow> bool" where
  "valid_array (Array r c rs) = (length rs = r \<and> (\<forall>row \<in> set rs. length row = c))"

text \<open>
  numpy computes the mean and the product in float64. \<open>float64\<close> rounds a real number to
  the nearest number with 53 significant bits, a tie going to the even one; this is the
  rounding of IEEE binary64 as long as the exponent stays in range, and the numbers met
  here are quotients \<open>k / n\<close> of counts and their products with 100.
\<close>

definition rne :: "real \<Rightarrow> int" where
  "rne z =
     (let f = \<lfloor>z\<rfloor>
      in if z - of_int f < 1 / 2 then f
         else if z - of_int f > 1 / 2 then f + 1
         else if even f then f else f + 1)"

definition float64 :: "real \<Rightarrow> real" where
  "float64 x =
     (if x = 0 then 0
      else let e = \<lfloor>log 2 \<bar>x\<bar>\<rfloor>
           in of_int (rne (x * 2 powr (52 - of_int e))) * 2 powr (of_int e - 52))"

text \<open>
  The predictions are compared with a threshold that is exact in binary, as \<open>0.5\<close> is.
  The comparison \<^verbatim>\<open>==\<close> stretches a dimension of size 1 to the size of the other
  operand and fails on shapes that do not fit. The mean of a boolean array is the number
  of \<open>True\<close> divided by the number of elements, rounded; of an array with no element it is
  \<open>NaN\<close>. The product is with a Python integer, and \<open>NaN\<close> times a number is \<open>NaN\<close>.
\<close>

datatype np_float = NaN | Num real

datatype np_error = Not_broadcastable

fun np_greater :: "real ndarray \<Rightarrow> real \<Rightarrow> bool ndarray" where
  "np_greater (Array r c rs) v = Array r c (map (map (\<lambda>e. e > v)) rs)"

fun astype_int :: "bool ndarray \<Rightarrow> int ndarray" where
  "astype_int (Array r c rs) = Array r c (map (map (\<lambda>t. if t then 1 else 0)) rs)"

definition broadcast_dim :: "nat \<Rightarrow> nat \<Rightarrow> nat option" where
  "broadcast_dim m n =
     (if m = n then Some m else if m = 1 then Some n else if n = 1 then Some m else None)"

fun stretch :: "nat \<Rightarrow> 'a list \<Rightarrow> 'a list" where
  "stretch n [e] = replicate n e"
| "stretch n es = es"

fun np_equal :: "int ndarray \<Rightarrow> int ndarray \<Rightarrow> np_error + bool ndarray" where
  "np_equal (Array r1 c1 rs1) (Array r2 c2 rs2) =
     (case (broadcast_dim r1 r2, broadcast_dim c1 c2) of
        (Some r, Some c) \<Rightarrow>
          Inr (Array r c
                 (map2 (map2 (=)) (map (stretch c) (stretch r rs1)) (map (stretch c) (stretch r rs2))))
      | _ \<Rightarrow> Inl Not_broadcastable)"

fun np_mean :: "bool ndarray \<Rightarrow> np_float" where
  "np_mean (Array r c rs) =
     (let es = concat rs
      in if es = [] then NaN
         else Num (float64 (real (length (filter (\<lambda>t. t) es)) / real (length es))))"

fun np_times :: "np_float \<Rightarrow> int \<Rightarrow> np_float" where
  "np_times NaN c = NaN"
| "np_times (Num v) c = Num (float64 (v * of_int c))"

definition accuracy :: "int ndarray \<Rightarrow> real ndarray \<Rightarrow> np_error + np_float" where
  "accuracy y_batch predictions =
     (case np_equal y_batch (astype_int (np_greater predictions 0.5)) of
        Inl e \<Rightarrow> Inl e
      | Inr agree \<Rightarrow> Inr (np_times (np_mean agree) 100))"

text \<open>Comparisons with \<open>NaN\<close> are false: \<open>NaN\<close> lies in no interval.\<close>

fun between :: "real \<Rightarrow> real \<Rightarrow> np_float \<Rightarrow> bool" where
  "between lo hi NaN = False"
| "between lo hi (Num v) = (lo \<le> v \<and> v \<le> hi)"

subsection \<open>Shapes\<close>

text \<open>
  The shape a placeholder was declared with, and whether a concrete shape fits it:
  \<open>None\<close> admits any size.
\<close>

fun placeholder_shape :: "expr \<Rightarrow> nat option list" where
  "placeholder_shape (Placeholder n sh) = sh"
| "placeholder_shape _ = []"

fun fits :: "nat option list \<Rightarrow> nat list \<Rightarrow> bool" where
  "fits [] [] = True"
| "fits (None # ds) (n # ns) = fits ds ns"
| "fits (Some d # ds) (n # ns) = (d = n \<and> fits ds ns)"
| "fits _ _ = False"

fun has_shape :: "nat list \<Rightarrow> 'a tensor \<Rightarrow> bool" where
  "has_shape [] (Scalar a) = True"
| "has_shape [n] (Vector v) = (length v = n)"
| "has_shape [n, m] (Matrix rows) = (length rows = n \<and> (\<forall>r \<in> set rows. length r = m))"
| "has_shape _ _ = False"

text \<open>The variables hold what the notebook created them with: a (5,1) matrix and a (1,) vector.\<close>

definition params_ok :: "'a store \<Rightarrow> bool" where
  "params_ok st =
     (case (st ''W'', st ''b'') of
        (Some Wt, Some bt) \<Rightarrow> has_shape [5, 1] Wt \<and> has_shape [1] bt
      | _ \<Rightarrow> False)"

subsection \<open>A reference backend\<close>

text \<open>
  Exact real arithmetic, the logistic function of the notebook's introduction as the
  sigmoid and the usual cross-entropy \<open>- (t ln p + (1 - t) ln (1 - p))\<close>. It serves to
  run the notebook's functions on concrete numbers and is no general differentiator: it
  knows the gradient of the notebook's \<open>loss\<close> with respect to \<open>W\<close> and to \<open>b\<close>, in closed
  form (with residuals \<open>r\<^sub>n = y_hat\<^sub>n - y\<^sub>n\<close>, the mean of \<open>r\<^sub>n x\<^sub>n\<^sub>i\<close> for the weight
  \<open>i\<close> and the mean of \<open>r\<^sub>n\<close> for the bias), and answers \<open>0\<close> to every other request,
  which is not a gradient in general. The mean of no element is \<open>0\<close> here, by the
  convention of division in HOL. No theorem below is about this backend's gradient or
  its mean of nothing.
\<close>

definition logistic :: "real \<Rightarrow> real" where
  "logistic z = 1 / (1 + exp (- z))"

definition residuals :: "real feeds \<Rightarrow> real store \<Rightarrow> real list" where
  "residuals fd st =
     (case (fd ''x'', fd ''y'', st ''W'', st ''b'') of
        (Some (Matrix X), Some (Matrix Y), Some (Matrix Wm), Some (Vector bv)) \<Rightarrow>
          map2 (\<lambda>xr yr. logistic (sum_list (map2 (*) xr (concat Wm)) + sum_list bv) - sum_list yr) X Y
      | _ \<Rightarrow> [])"

definition logistic_grad :: "expr \<Rightarrow> expr \<Rightarrow> real feeds \<Rightarrow> real store \<Rightarrow> nat \<Rightarrow> nat \<Rightarrow> real" where
  "logistic_grad l w fd st i j =
     (let rs = residuals fd st;
          xs = (case fd ''x'' of Some (Matrix X) \<Rightarrow> X | _ \<Rightarrow> [])
      in if l = loss \<and> w = W_var
         then sum_list (map2 (\<lambda>r xr. r * xr ! i) rs xs) / real (length rs)
         else if l = loss \<and> w = b_var then sum_list rs / real (length rs)
         else 0)"

definition ideal :: "real backend" where
  "ideal =
     \<lparr>k_const = (\<lambda>c. c), k_add = (+), k_sub = (-), k_mul = (*),
      k_sum = sum_list, k_mean = (\<lambda>vs. sum_list vs / real (length vs)),
      k_sigmoid = logistic, k_bce = (\<lambda>p t. - (t * ln p + (1 - t) * ln (1 - p))),
      k_grad = logistic_grad\<rparr>"

subsection \<open>The gradient-descent step, as the text states it\<close>

text \<open>
  Every element \<open>a\<close> of a parameter becomes \<open>a - 0.1 * d\<close>, with \<open>d\<close> the component of
  the gradient at the element's position. This is written from the description of the
  update, independently of the graph above, to compare the two.
\<close>

definition step :: "'a backend \<Rightarrow> 'a \<Rightarrow> 'a \<Rightarrow> 'a" where
  "step K a d = k_sub K a (k_mul K (k_const K 0.1) d)"

fun gd_step :: "'a backend \<Rightarrow> (nat \<Rightarrow> nat \<Rightarrow> 'a) \<Rightarrow> 'a tensor \<Rightarrow> 'a tensor" where
  "gd_step K g (Scalar a) = Scalar (step K a (g 0 0))"
| "gd_step K g (Vector v) = Vector (map (\<lambda>(i, a). step K a (g i 0)) (enumerate 0 v))"
| "gd_step K g (Matrix m) =
     Matrix (map (\<lambda>(i, r). map (\<lambda>(j, a). step K a (g i j)) (enumerate 0 r)) (enumerate 0 m))"

subsection \<open>Agreement of predictions and labels, as the text states it\<close>

text \<open>
  The number of positions where the thresholded prediction agrees with the label: the
  label is the positive class \<open>1\<close> exactly when the probability is above \<open>0.5\<close>.
\<close>

fun agreements :: "int ndarray \<Rightarrow> real ndarray \<Rightarrow> nat" where
  "agreements (Array r c ls) (Array r' c' ps) =
     length (filter (\<lambda>(l, p). (l = 1) = (p > 0.5)) (zip (concat ls) (concat ps)))"

section \<open>Properties\<close>

subsection \<open>Auxiliary facts\<close>

lemma updates_loop_append:
  "updates_loop pgs acc = acc @ map (\<lambda>(p, g). (p, Sub p (Mul (Const lr) g))) pgs"
  by (induction pgs arbitrary: acc) (auto simp: Let_def)

lemma map2_upt:
  "map2 f r (map g [0..<length r]) = map (\<lambda>(j, a). f a (g j)) (enumerate 0 r)"
  by (rule nth_equalityI) (auto simp: nth_enumerate_eq)

lemma map2_map2_enumerate:
  "map2 (map2 f) m (map (map h) (map (\<lambda>(i, r). map (g i) [0..<length r]) (enumerate 0 m))) =
   map (\<lambda>(i, r). map (\<lambda>(j, a). f a (h (g i j))) (enumerate 0 r)) (enumerate 0 m)"
  by (rule nth_equalityI) (auto simp: nth_enumerate_eq intro!: nth_equalityI)

lemma map_length_enumerate:
  "map length (map (map h) (map (\<lambda>(i, r). map (g i) [0..<length r]) (enumerate 0 m))) = map length m"
  by (rule nth_equalityI) (auto simp: nth_enumerate_eq)

lemma eval_new_value:
  assumes "st n = Some t" and "eval K fd st l = Inr lv"
  shows "eval K fd st (Sub (Variable n) (Mul (Const lr) (Grad l (Variable n)))) =
         Inr (gd_step K (k_grad K l (Variable n) fd st) t)"
proof (cases t)
  case (Scalar a)
  then show ?thesis using assms by (simp add: step_def lr_def)
next
  case (Vector v)
  then show ?thesis using assms
    by (simp add: step_def lr_def map2_upt)
next
  case (Matrix m)
  have "elementwise (k_sub K) (Matrix m)
          (Matrix (map (map (k_mul K (k_const K lr)))
             (map (\<lambda>(i, r). map (k_grad K l (Variable n) fd st i) [0..<length r]) (enumerate 0 m)))) =
        Inr (gd_step K (k_grad K l (Variable n) fd st) (Matrix m))"
    by (simp add: map_length_enumerate map2_map2_enumerate step_def lr_def del: map_map)
  then show ?thesis using assms Matrix by simp
qed

lemma transpose_column:
  assumes "Wm \<noteq> []" and "\<forall>r \<in> set Wm. length r = 1"
  shows "transpose Wm = [concat Wm]"
  using assms
proof (induction Wm)
  case Nil
  then show ?case by simp
next
  case (Cons r Wm)
  then obtain a where r: "r = [a]" by (cases r) auto
  show ?case
  proof (cases "Wm = []")
    case True
    then show ?thesis using r by simp
  next
    case False
    have singles: "\<forall>r \<in> set Wm. \<exists>a. r = [a]"
      using Cons.prems(2) by (auto simp: length_Suc_conv)
    have heads: "concat (map (case_list [] (\<lambda>h t. [h])) Wm) = concat Wm"
      using singles by (induction Wm) auto
    have tails: "concat (map (case_list [] (\<lambda>h t. [t])) Wm) = map (\<lambda>_. []) Wm"
      using singles by (induction Wm) auto
    have none: "transpose (map (\<lambda>_. []) Wm) = []"
      by (induction Wm) auto
    show ?thesis using r heads tails none by simp
  qed
qed

lemma eval_y_hat:
  assumes "fd ''x'' = Some (Matrix X)" and "\<forall>r \<in> set X. length r = 5"
    and "st ''W'' = Some (Matrix Wm)" and "length Wm = 5" and "\<forall>r \<in> set Wm. length r = 1"
    and "st ''b'' = Some (Vector [bv])"
  shows "eval K fd st y_hat =
    Inr (Matrix (map (\<lambda>r. [k_sigmoid K (k_add K (k_sum K (map2 (k_mul K) r (concat Wm))) bv)]) X))"
proof -
  have "Wm \<noteq> []" using assms(4) by auto
  then have t: "transpose Wm = [concat Wm]" using assms(5) by (rule transpose_column)
  show ?thesis using assms(1,2,3,4,6) t
    by (simp add: y_hat_def x_ph_def W_var_def b_var_def)
qed

text \<open>The shape hypotheses, opened up.\<close>

lemma has_shape_matrixE:
  assumes "has_shape [n, m] t"
  obtains rows where "t = Matrix rows" and "length rows = n" and "\<forall>r \<in> set rows. length r = m"
  using assms by (cases t) auto

lemma has_shape_rank2: "has_shape [n, m] t \<Longrightarrow> rank t = 2"
  by (cases t) auto

lemma has_shape_vector1E:
  assumes "has_shape [Suc 0] t"
  obtains a where "t = Vector [a]"
  using assms by (cases t) (auto simp: length_Suc_conv)

lemma eval_y_hat_shape:
  assumes "fd ''x'' = Some X" and "has_shape [n, 5] X"
    and "st ''W'' = Some Wt" and "has_shape [5, 1] Wt"
    and "st ''b'' = Some bt" and "has_shape [1] bt"
  shows "\<exists>P. eval K fd st y_hat = Inr (Matrix P) \<and> length P = n \<and> (\<forall>r \<in> set P. length r = 1)"
proof -
  from assms(2) obtain Xm where X: "X = Matrix Xm" "length Xm = n" "\<forall>r \<in> set Xm. length r = 5"
    by (rule has_shape_matrixE)
  from assms(4) obtain Wm where W: "Wt = Matrix Wm" "length Wm = 5" "\<forall>r \<in> set Wm. length r = 1"
    by (rule has_shape_matrixE)
  from assms(6) obtain bv where b: "bt = Vector [bv]"
    by (auto elim: has_shape_vector1E)
  have "eval K fd st y_hat =
    Inr (Matrix (map (\<lambda>r. [k_sigmoid K (k_add K (k_sum K (map2 (k_mul K) r (concat Wm))) bv)]) Xm))"
    using assms(1,3,5) X W b by (intro eval_y_hat) auto
  then show ?thesis using X(2) by auto
qed

lemma map_length_rows:
  "length rows = n \<Longrightarrow> \<forall>r \<in> set rows. length r = m \<Longrightarrow> map length rows = replicate n m"
  by (induction rows arbitrary: n) auto

lemma eval_loss_scalar:
  assumes "fd ''x'' = Some X" and "has_shape [n, 5] X"
    and "fd ''y'' = Some Y" and "has_shape [n, 1] Y"
    and "st ''W'' = Some Wt" and "has_shape [5, 1] Wt"
    and "st ''b'' = Some bt" and "has_shape [1] bt"
  shows "\<exists>v. eval K fd st loss = Inr (Scalar v)"
proof -
  from eval_y_hat_shape[of fd X n st Wt bt K] assms(1,2,5,6,7,8)
  obtain P where P: "eval K fd st y_hat = Inr (Matrix P)" "length P = n" "\<forall>r \<in> set P. length r = 1"
    by blast
  from assms(4) obtain Ym where Y: "Y = Matrix Ym" "length Ym = n" "\<forall>r \<in> set Ym. length r = 1"
    by (rule has_shape_matrixE)
  have "map length P = replicate n 1" using P(2,3) by (rule map_length_rows)
  moreover have "map length Ym = replicate n 1" using Y(2,3) by (rule map_length_rows)
  ultimately have "map length P = map length Ym" by simp
  then show ?thesis using P(1) Y(1) assms(3) by (simp add: loss_def y_ph_def)
qed

lemma updates_eq:
  "updates =
     [(W_var, Sub W_var (Mul (Const lr) (Grad loss W_var))),
      (b_var, Sub b_var (Mul (Const lr) (Grad loss b_var)))]"
  by (simp add: updates_def gradients_def K_gradients_def params_def Let_def)

lemma train_fn_result:
  assumes "has_shape [n, 5] X" and "has_shape [n, 1] Y"
    and "st ''W'' = Some Wt" and "has_shape [5, 1] Wt"
    and "st ''b'' = Some bt" and "has_shape [1] bt"
  shows "\<exists>v. eval K [''x'' \<mapsto> X, ''y'' \<mapsto> Y] st loss = Inr (Scalar v) \<and>
           train_fn K st [X, Y] =
             Inr (Scalar v,
                  st(''W'' \<mapsto> gd_step K (k_grad K loss W_var [''x'' \<mapsto> X, ''y'' \<mapsto> Y] st) Wt,
                     ''b'' \<mapsto> gd_step K (k_grad K loss b_var [''x'' \<mapsto> X, ''y'' \<mapsto> Y] st) bt))"
proof -
  let ?fd = "[''x'' \<mapsto> X, ''y'' \<mapsto> Y]"
  have fd: "[''y'' \<mapsto> Y, ''x'' \<mapsto> X] = ?fd" by (simp add: fun_upd_twist)
  have b: "bind_inputs [x_ph, y_ph] [X, Y] = Inr ?fd"
    using has_shape_rank2[OF assms(1)] has_shape_rank2[OF assms(2)]
    by (simp add: x_ph_def y_ph_def fd)
  obtain v where v: "eval K ?fd st loss = Inr (Scalar v)"
    using eval_loss_scalar[of ?fd X n Y st Wt bt K] assms by auto
  have uW: "eval K ?fd st (Sub W_var (Mul (Const lr) (Grad loss W_var))) =
        Inr (gd_step K (k_grad K loss W_var ?fd st) Wt)"
    unfolding W_var_def using assms(3) v by (rule eval_new_value)
  have ub: "eval K ?fd st (Sub b_var (Mul (Const lr) (Grad loss b_var))) =
        Inr (gd_step K (k_grad K loss b_var ?fd st) bt)"
    unfolding b_var_def using assms(5) v by (rule eval_new_value)
  have us: "eval_updates K ?fd st updates =
        Inr [(''W'', gd_step K (k_grad K loss W_var ?fd st) Wt),
             (''b'', gd_step K (k_grad K loss b_var ?fd st) bt)]"
    unfolding updates_eq using uW ub by (simp add: W_var_def b_var_def)
  have "train_fn K st [X, Y] =
      Inr (Scalar v,
           st(''W'' \<mapsto> gd_step K (k_grad K loss W_var ?fd st) Wt,
              ''b'' \<mapsto> gd_step K (k_grad K loss b_var ?fd st) bt))"
    unfolding train_fn_def K_function_def by (simp add: b v us)
  with v show ?thesis by blast
qed

lemma has_shape_gd_step:
  "has_shape sh t \<Longrightarrow> has_shape sh (gd_step K g t)"
  by (induction sh t rule: has_shape.induct) (auto simp: in_set_enumerate_eq)

lemma params_okE:
  assumes "params_ok st"
  obtains Wt bt where "st ''W'' = Some Wt" and "has_shape [5, 1] Wt"
    and "st ''b'' = Some bt" and "has_shape [1] bt"
  using assms by (auto simp: params_ok_def split: option.splits)

lemma train_fn_ok:
  assumes "has_shape [n, 5] X" and "has_shape [n, 1] Y" and "params_ok st"
  shows "\<exists>v st'. train_fn K st [X, Y] = Inr (Scalar v, st') \<and> params_ok st'"
proof -
  from assms(3) obtain Wt bt where p: "st ''W'' = Some Wt" "has_shape [5, 1] Wt"
      "st ''b'' = Some bt" "has_shape [1] bt"
    by (rule params_okE)
  from train_fn_result[OF assms(1,2) p, of K] obtain v where
    "train_fn K st [X, Y] =
       Inr (Scalar v,
            st(''W'' \<mapsto> gd_step K (k_grad K loss W_var [''x'' \<mapsto> X, ''y'' \<mapsto> Y] st) Wt,
               ''b'' \<mapsto> gd_step K (k_grad K loss b_var [''x'' \<mapsto> X, ''y'' \<mapsto> Y] st) bt))"
    by blast
  moreover have "params_ok
     (st(''W'' \<mapsto> gd_step K (k_grad K loss W_var [''x'' \<mapsto> X, ''y'' \<mapsto> Y] st) Wt,
         ''b'' \<mapsto> gd_step K (k_grad K loss b_var [''x'' \<mapsto> X, ''y'' \<mapsto> Y] st) bt))"
    using p(2,4) by (simp add: params_ok_def has_shape_gd_step)
  ultimately show ?thesis by blast
qed

lemma training_loop_ok:
  assumes "has_shape [n, 5] X" and "has_shape [n, 1] Y"
  shows "params_ok (vars s) \<Longrightarrow> \<exists>s'. training_loop K X Y its s = Inr s' \<and> params_ok (vars s')"
proof (induction its arbitrary: s)
  case Nil
  then show ?case by simp
next
  case (Cons i its)
  from train_fn_ok[OF assms Cons.prems, of K] obtain v st' where
    t: "train_fn K (vars s) [X, Y] = Inr (Scalar v, st')" and ok: "params_ok st'"
    by blast
  let ?s = "\<lparr>vars = st', printed = (if i mod 100 = 0 then printed s @ [(i, Scalar v)] else printed s)\<rparr>"
  have "params_ok (vars ?s)" using ok by simp
  from Cons.IH[OF this] show ?case using t by simp
qed

lemma params_ok_initial:
  "has_shape [5, 1] W0 \<Longrightarrow> params_ok (initial_store K W0)"
  by (simp add: params_ok_def initial_store_def)

lemma predict_eq:
  "predict K st args =
     (if 1 < length args then Inl Wrong_arity
      else
        (case bind_inputs [x_ph] args of Inl e \<Rightarrow> Inl e | Inr fd \<Rightarrow>
           (case eval K fd st y_hat of Inl e \<Rightarrow> Inl e | Inr out \<Rightarrow> Inr (out, st))))"
  by (simp add: predict_def K_function_def split: sum.splits)

lemma predict_ok:
  assumes "has_shape [n, 5] X" and "params_ok st"
  shows "\<exists>P. predict K st [X] = Inr (P, st) \<and> has_shape [n, 1] P"
proof -
  from assms(2) obtain Wt bt where p: "st ''W'' = Some Wt" "has_shape [5, 1] Wt"
      "st ''b'' = Some bt" "has_shape [1] bt"
    by (rule params_okE)
  have b: "bind_inputs [x_ph] [X] = Inr [''x'' \<mapsto> X]"
    using has_shape_rank2[OF assms(1)] by (simp add: x_ph_def)
  from eval_y_hat_shape[of "[''x'' \<mapsto> X]" X n st Wt bt K] assms(1) p
  obtain P where "eval K [''x'' \<mapsto> X] st y_hat = Inr (Matrix P)" "length P = n" "\<forall>r \<in> set P. length r = 1"
    by auto
  then show ?thesis by (simp add: predict_eq b)
qed

lemma notebook_ok:
  assumes "has_shape [16, 5] X" and "has_shape [16, 1] Y" and "has_shape [5, 1] W0"
  shows "\<exists>P s. notebook K W0 X Y = Inr (P, s) \<and> has_shape [16, 1] P"
proof -
  have "params_ok (vars \<lparr>vars = initial_store K W0, printed = []\<rparr>)"
    using assms(3) by (simp add: params_ok_initial)
  from training_loop_ok[OF assms(1,2) this, of K "[0..<1000]"] obtain s' where
    l: "training_loop K X Y [0..<1000] \<lparr>vars = initial_store K W0, printed = []\<rparr> = Inr s'"
    and ok: "params_ok (vars s')" by blast
  from predict_ok[OF assms(1) ok, of K] obtain P where
    "predict K (vars s') [X] = Inr (P, vars s')" "has_shape [16, 1] P" by blast
  then show ?thesis using l by (simp add: notebook_def)
qed

lemma concat_singletons:
  "\<forall>w \<in> set Wm. length w = 1 \<Longrightarrow> concat Wm = map (\<lambda>w. w ! 0) Wm"
  by (induction Wm) (auto simp: length_Suc_conv)

lemma dot_as_sum:
  assumes "length r = 5" and "length Wm = 5" and "\<forall>w \<in> set Wm. length w = 1"
  shows "sum_list (map2 (*) r (concat Wm)) = (\<Sum>j<5. r ! j * Wm ! j ! 0 :: real)"
proof -
  have "sum_list (map2 (*) r (concat Wm)) = (\<Sum>j<5. map2 (*) r (concat Wm) ! j)"
    using assms by (simp add: sum_list_sum_nth concat_singletons atLeast0LessThan)
  also have "\<dots> = (\<Sum>j<5. r ! j * Wm ! j ! 0)"
    using assms by (intro sum.cong) (auto simp: concat_singletons)
  finally show ?thesis .
qed

lemma concat_map2_map2:
  "map length a = map length c \<Longrightarrow> concat (map2 (map2 f) a c) = map2 f (concat a) (concat c)"
proof (induction a arbitrary: c)
  case Nil
  then show ?case by simp
next
  case (Cons r a)
  then obtain s c' where c: "c = s # c'" by (cases c) auto
  with Cons.prems have "length r = length s" "map length a = map length c'" by auto
  with Cons.IH[of c'] c show ?case by simp
qed

lemma bind_inputs_xy:
  assumes "bind_inputs [x_ph, y_ph] args = Inr fd"
  shows "\<exists>X Y. args = [X, Y] \<and> fd = [''x'' \<mapsto> X, ''y'' \<mapsto> Y]"
proof (cases args)
  case Nil
  with assms show ?thesis by (simp add: x_ph_def)
next
  case (Cons X r)
  show ?thesis
  proof (cases r)
    case Nil
    with Cons assms show ?thesis by (simp add: x_ph_def y_ph_def split: if_splits)
  next
    case r: (Cons Y r')
    show ?thesis
    proof (cases r')
      case Nil
      with Cons r assms have "fd = [''y'' \<mapsto> Y, ''x'' \<mapsto> X]"
        by (simp add: x_ph_def y_ph_def split: if_splits)
      then have "fd = [''x'' \<mapsto> X, ''y'' \<mapsto> Y]" by (simp add: fun_upd_twist)
      with Cons r Nil show ?thesis by simp
    next
      case (Cons Z r'')
      with \<open>args = X # r\<close> r assms show ?thesis by (simp add: x_ph_def y_ph_def split: if_splits)
    qed
  qed
qed

lemma eval_new_value_bound:
  assumes "eval K fd st (Sub (Variable n) c) = Inr v"
  shows "\<exists>t. st n = Some t"
  using assms by (cases "st n") auto

lemma train_fn_returned:
  assumes "train_fn K st args = Inr (v, st')"
  shows "\<exists>X Y Wt bt. args = [X, Y] \<and> st ''W'' = Some Wt \<and> st ''b'' = Some bt \<and>
           eval K [''x'' \<mapsto> X, ''y'' \<mapsto> Y] st loss = Inr v \<and>
           st' = st(''W'' \<mapsto> gd_step K (k_grad K loss W_var [''x'' \<mapsto> X, ''y'' \<mapsto> Y] st) Wt,
                    ''b'' \<mapsto> gd_step K (k_grad K loss b_var [''x'' \<mapsto> X, ''y'' \<mapsto> Y] st) bt)"
proof -
  from assms obtain fd news where
    b: "bind_inputs [x_ph, y_ph] args = Inr fd" and
    l: "eval K fd st loss = Inr v" and
    u: "eval_updates K fd st updates = Inr news" and
    w: "st' = write_updates news st"
    by (auto simp: train_fn_def K_function_def split: sum.splits if_splits)
  from bind_inputs_xy[OF b] obtain X Y where a: "args = [X, Y]" and fd: "fd = [''x'' \<mapsto> X, ''y'' \<mapsto> Y]"
    by blast
  from u obtain vW vb where
    eW: "eval K fd st (Sub (Variable ''W'') (Mul (Const lr) (Grad loss (Variable ''W'')))) = Inr vW" and
    eb: "eval K fd st (Sub (Variable ''b'') (Mul (Const lr) (Grad loss (Variable ''b'')))) = Inr vb" and
    news: "news = [(''W'', vW), (''b'', vb)]"
    unfolding updates_eq W_var_def b_var_def
    by (auto simp del: eval.simps split: sum.splits)
  from eval_new_value_bound[OF eW] obtain Wt where W: "st ''W'' = Some Wt" by blast
  from eval_new_value_bound[OF eb] obtain bt where bb: "st ''b'' = Some bt" by blast
  from eval_new_value[OF W l] eW have vW: "vW = gd_step K (k_grad K loss W_var fd st) Wt"
    by (simp add: W_var_def del: eval.simps)
  from eval_new_value[OF bb l] eb have vb: "vb = gd_step K (k_grad K loss b_var fd st) bt"
    by (simp add: b_var_def del: eval.simps)
  have "st' = st(''W'' \<mapsto> vW, ''b'' \<mapsto> vb)" using w news by simp
  with a W bb l fd vW vb show ?thesis by blast
qed

lemma rne_floor: "\<lfloor>z\<rfloor> \<le> rne z \<and> rne z \<le> \<lfloor>z\<rfloor> + 1"
  by (simp add: rne_def Let_def)

lemma rne_of_int: "rne (of_int k) = k"
  by (simp add: rne_def Let_def)

lemma rne_near: "\<bar>of_int (rne z) - z\<bar> \<le> 1 / 2"
  unfolding rne_def Let_def by (auto simp: abs_le_iff)

lemma rne_mono:
  assumes "a \<le> b"
  shows "rne a \<le> rne b"
proof (cases "\<lfloor>a\<rfloor> = \<lfloor>b\<rfloor>")
  case True
  then show ?thesis using assms unfolding rne_def Let_def by auto
next
  case False
  with assms have "\<lfloor>a\<rfloor> < \<lfloor>b\<rfloor>" by (simp add: floor_mono order.not_eq_order_implies_strict)
  then have "rne a \<le> \<lfloor>b\<rfloor>" using rne_floor[of a] by linarith
  then show ?thesis using rne_floor[of b] by linarith
qed

lemma binade:
  assumes "0 < x"
  shows "2 powr of_int \<lfloor>log 2 x\<rfloor> \<le> x \<and> x < 2 powr (of_int \<lfloor>log 2 x\<rfloor> + 1)"
proof -
  have "2 powr of_int \<lfloor>log 2 x\<rfloor> \<le> 2 powr log 2 x"
    by (intro powr_mono) simp_all
  moreover have "2 powr log 2 x < 2 powr (of_int \<lfloor>log 2 x\<rfloor> + 1)"
    by (intro powr_less_mono) simp_all
  ultimately show ?thesis using assms by simp
qed

lemma floor_log_binade:
  assumes "0 < x" and "2 powr of_int e \<le> x" and "x < 2 powr (of_int e + 1)"
  shows "\<lfloor>log 2 x\<rfloor> = e"
proof (rule floor_unique)
  have "log 2 (2 powr of_int e) \<le> log 2 x" using assms by (subst log_le_cancel_iff) simp_all
  then show "of_int e \<le> log 2 x" by simp
  have "log 2 x < log 2 (2 powr (of_int e + 1))" using assms by (subst log_less_cancel_iff) simp_all
  then show "log 2 x < of_int e + 1" by simp
qed

lemma float64_binade:
  assumes "0 < x" and "2 powr of_int e \<le> x" and "x < 2 powr (of_int e + 1)"
  shows "float64 x = of_int (rne (x * 2 powr (52 - of_int e))) * 2 powr (of_int e - 52)"
  using assms floor_log_binade[OF assms] by (simp add: float64_def Let_def)

text \<open>Within its binade.\<close>

lemma float64_in_binade:
  assumes "0 < x"
  shows "2 powr of_int \<lfloor>log 2 x\<rfloor> \<le> float64 x \<and> float64 x \<le> 2 powr (of_int \<lfloor>log 2 x\<rfloor> + 1)"
proof -
  let ?e = "\<lfloor>log 2 x\<rfloor>"
  let ?z = "x * 2 powr (52 - of_int ?e)"
  from binade[OF assms] have lo: "2 powr of_int ?e \<le> x" and hi: "x < 2 powr (of_int ?e + 1)" by blast+
  have s: "0 < (2::real) powr (52 - of_int ?e)" by simp
  have "2 powr of_int ?e * 2 powr (52 - of_int ?e) \<le> ?z"
    using lo s by (intro mult_right_mono) simp_all
  then have zl: "of_int (2 ^ 52) \<le> ?z" by (simp add: powr_add[symmetric])
  have "?z \<le> 2 powr (of_int ?e + 1) * 2 powr (52 - of_int ?e)"
    using hi s by (intro mult_right_mono) simp_all
  then have zh: "?z \<le> of_int (2 ^ 53)" by (simp add: powr_add[symmetric])
  have rl: "2 ^ 52 \<le> rne ?z" using rne_mono[OF zl] by (simp only: rne_of_int)
  have rh: "rne ?z \<le> 2 ^ 53" using rne_mono[OF zh] by (simp only: rne_of_int)
  have f: "float64 x = of_int (rne ?z) * 2 powr (of_int ?e - 52)"
    using assms by (simp add: float64_def Let_def)
  have p52: "(of_int (2 ^ 52) :: real) = 2 powr 52" and p53: "(of_int (2 ^ 53) :: real) = 2 powr 53"
    by simp_all
  have "(2::real) powr of_int ?e = of_int (2 ^ 52) * 2 powr (of_int ?e - 52)"
    by (simp only: p52 powr_add[symmetric]) simp
  also have "\<dots> \<le> of_int (rne ?z) * 2 powr (of_int ?e - 52)"
    using rl by (intro mult_right_mono) simp_all
  finally have lower: "2 powr of_int ?e \<le> float64 x" by (simp only: f)
  have "of_int (rne ?z) * (2::real) powr (of_int ?e - 52) \<le> of_int (2 ^ 53) * 2 powr (of_int ?e - 52)"
    using rh by (intro mult_right_mono) simp_all
  also have "\<dots> = 2 powr (of_int ?e + 1)"
    by (simp only: p53 powr_add[symmetric]) (simp add: add.commute)
  finally have upper: "float64 x \<le> 2 powr (of_int ?e + 1)" by (simp only: f)
  from lower upper show ?thesis ..
qed

lemma float64_nonneg: "0 \<le> x \<Longrightarrow> 0 \<le> float64 x"
  using float64_in_binade[of x] by (cases "x = 0") (auto simp: float64_def intro: order_trans[rotated])

lemma float64_mono:
  assumes "0 \<le> x" and "x \<le> y"
  shows "float64 x \<le> float64 y"
proof (cases "x = 0")
  case True
  then show ?thesis using assms float64_nonneg[of y] by (simp add: float64_def)
next
  case False
  with assms have x: "0 < x" and y: "0 < y" by simp_all
  let ?ex = "\<lfloor>log 2 x\<rfloor>" and ?ey = "\<lfloor>log 2 y\<rfloor>"
  have "log 2 x \<le> log 2 y" using x y assms(2) by simp
  then have le: "?ex \<le> ?ey" by (rule floor_mono)
  show ?thesis
  proof (cases "?ex = ?ey")
    case True
    have "x * 2 powr (52 - of_int ?ex) \<le> y * 2 powr (52 - of_int ?ex)"
      using assms(2) by (intro mult_right_mono) simp_all
    then have "rne (x * 2 powr (52 - of_int ?ex)) \<le> rne (y * 2 powr (52 - of_int ?ex))"
      by (rule rne_mono)
    then have "of_int (rne (x * 2 powr (52 - of_int ?ex))) * (2::real) powr (of_int ?ex - 52)
        \<le> of_int (rne (y * 2 powr (52 - of_int ?ex))) * 2 powr (of_int ?ex - 52)"
      by (intro mult_right_mono) simp_all
    then show ?thesis using x y True by (simp add: float64_def Let_def)
  next
    case False
    with le have "?ex + 1 \<le> ?ey" by simp
    then have "(of_int ?ex + 1 :: real) \<le> of_int ?ey" by linarith
    then have "(2::real) powr (of_int ?ex + 1) \<le> 2 powr of_int ?ey"
      by (intro powr_mono) simp_all
    then show ?thesis using float64_in_binade[OF x] float64_in_binade[OF y] by linarith
  qed
qed

lemma float64_error:
  assumes "0 \<le> x"
  shows "\<bar>float64 x - x\<bar> \<le> x / 2 ^ 53"
proof (cases "x = 0")
  case True
  then show ?thesis by (simp add: float64_def)
next
  case False
  with assms have x: "0 < x" by simp
  let ?e = "\<lfloor>log 2 x\<rfloor>"
  let ?z = "x * 2 powr (52 - of_int ?e)"
  let ?s = "(2::real) powr (of_int ?e - 52)"
  have zs: "?z * ?s = x" by (simp add: powr_add[symmetric] mult.assoc)
  have f: "float64 x = of_int (rne ?z) * ?s" using x by (simp add: float64_def Let_def)
  have "float64 x - x = (of_int (rne ?z) - ?z) * ?s" unfolding f by (simp add: algebra_simps zs[simplified algebra_simps])
  then have "\<bar>float64 x - x\<bar> = \<bar>of_int (rne ?z) - ?z\<bar> * ?s" by (simp add: abs_mult)
  also have "\<dots> \<le> 1 / 2 * ?s" using rne_near[of ?z] by (intro mult_right_mono) simp_all
  also have "\<dots> = 2 powr of_int ?e / 2 ^ 53"
  proof -
    have "?s = 2 powr of_int ?e / 2 powr 52" by (simp add: powr_diff)
    then show ?thesis by simp
  qed
  also have "\<dots> \<le> x / 2 ^ 53" using binade[OF x] by (intro divide_right_mono) simp_all
  finally show ?thesis .
qed

lemma float64_0: "float64 0 = 0"
  by (simp add: float64_def)

lemma float64_1: "float64 1 = 1"
  using float64_binade[of 1 0] by (simp add: rne_def Let_def powr_neg_numeral)

lemma float64_100: "float64 100 = 100"
  using float64_binade[of 100 6] by (simp add: rne_def Let_def powr_neg_numeral)

lemma float64_third: "float64 (1 / 3) = 6004799503160661 / 18014398509481984"
  using float64_binade[of "1 / 3" "- 2"] by (simp add: rne_def Let_def powr_neg_numeral)

lemma float64_third_100:
  "float64 (6004799503160661 / 18014398509481984 * 100) = 2345624805922133 / 70368744177664"
  using float64_binade[of "6004799503160661 / 18014398509481984 * 100" 5] by (simp add: rne_def Let_def powr_neg_numeral)

lemma stretch_same: "length es = n \<Longrightarrow> stretch n es = es"
  by (cases "(n, es)" rule: stretch.cases) auto

lemma stretch_rows: "\<forall>row \<in> set rs. length row = c \<Longrightarrow> map (stretch c) rs = rs"
  by (induction rs) (auto simp: stretch_same)

lemma length_concat_rows:
  "length rs = r \<Longrightarrow> \<forall>row \<in> set rs. length row = c \<Longrightarrow> length (concat rs) = r * c"
  by (induction rs arbitrary: r) auto

lemma count_true_map2:
  "length (filter (\<lambda>t. t) (map2 f ls ps)) = length (filter (\<lambda>(l, p). f l p) (zip ls ps))"
  by (induction ls ps rule: list_induct2') auto

lemma agreements_le:
  "agreements (Array r c ls) (Array r' c' ps) \<le> length (concat ls)"
proof -
  have "agreements (Array r c ls) (Array r' c' ps) \<le> length (zip (concat ls) (concat ps))"
    unfolding agreements.simps by (rule length_filter_le)
  then show ?thesis by simp
qed

lemma two_roundings:
  fixes v m q a b :: real
  assumes "\<bar>m - q\<bar> \<le> a" and "\<bar>v - m * 100\<bar> \<le> b"
  shows "\<bar>v - 100 * q\<bar> \<le> b + 100 * a"
  using assms by linarith

lemma accuracy_value:
  assumes "valid_array (Array r c ls)" and "valid_array (Array r c ps)" and "0 < r * c"
    and "\<forall>l \<in> set (concat ls). l = 0 \<or> l = 1"
  shows "accuracy (Array r c ls) (Array r c ps) =
    Inr (Num (float64 (float64 (real (agreements (Array r c ls) (Array r c ps)) / real (r * c)) * 100)))"
proof -
  let ?t = "map (map (\<lambda>t. if t then 1 else 0)) (map (map (\<lambda>e. e > 0.5)) ps)"
  have lenl: "length ls = r" and rowl: "\<forall>row \<in> set ls. length row = c"
    and lenp: "length ps = r" and rowp: "\<forall>row \<in> set ps. length row = c"
    using assms(1,2) by auto
  have lent: "length ?t = r" and rowt: "\<forall>row \<in> set ?t. length row = c"
    using lenp rowp by auto
  have shape: "map length ls = map length ?t"
    by (simp only: map_length_rows[OF lenl rowl] map_length_rows[OF lent rowt])
  have flat: "concat ?t = map (\<lambda>p. if p > 0.5 then 1 else 0) (concat ps)"
    by (simp add: map_concat o_def)
  have eq: "np_equal (Array r c ls) (astype_int (np_greater (Array r c ps) 0.5)) =
      Inr (Array r c (map2 (map2 (=)) ls ?t))"
    by (simp only: np_greater.simps astype_int.simps np_equal.simps broadcast_dim_def
        if_True option.case prod.case simp_thms
        stretch_same[OF lenl] stretch_same[OF lent] stretch_rows[OF rowl] stretch_rows[OF rowt])
  have c: "concat (map2 (map2 (=)) ls ?t) =
      map2 (=) (concat ls) (map (\<lambda>p. if p > 0.5 then 1 else 0) (concat ps))"
    by (simp only: concat_map2_map2[OF shape] flat)
  have total: "length (concat ls) = r * c" using lenl rowl by (rule length_concat_rows)
  have totalp: "length (concat ps) = r * c" using lenp rowp by (rule length_concat_rows)
  have len: "length (concat (map2 (map2 (=)) ls ?t)) = r * c"
    unfolding c using total totalp by simp
  have "length (filter (\<lambda>t. t) (concat (map2 (map2 (=)) ls ?t))) =
      length (filter (\<lambda>(l, p). l = (if p > 0.5 then 1 else 0)) (zip (concat ls) (concat ps)))"
    unfolding c by (simp add: count_true_map2 zip_map2 filter_map o_def case_prod_unfold)
  also have "filter (\<lambda>(l, p). l = (if p > 0.5 then 1 else 0)) (zip (concat ls) (concat ps)) =
      filter (\<lambda>(l, p). (l = 1) = (p > 0.5)) (zip (concat ls) (concat ps))"
  proof (intro filter_cong refl)
    fix lp assume "lp \<in> set (zip (concat ls) (concat ps))"
    then have "fst lp \<in> set (concat ls)" by (metis prod.collapse set_zip_leftD)
    with assms(4) have "fst lp = 0 \<or> fst lp = 1" by blast
    then show "(case lp of (l, p) \<Rightarrow> l = (if p > 0.5 then 1 else 0)) =
        (case lp of (l, p) \<Rightarrow> (l = 1) = (p > 0.5))"
      by (cases lp) auto
  qed
  finally have cnt: "length (filter (\<lambda>t. t) (concat (map2 (map2 (=)) ls ?t))) =
      agreements (Array r c ls) (Array r c ps)"
    by simp
  have ne: "concat (map2 (map2 (=)) ls ?t) \<noteq> []"
    using len assms(3) by (metis length_0_conv less_numeral_extra(3))
  have "np_mean (Array r c (map2 (map2 (=)) ls ?t)) =
      Num (float64 (real (agreements (Array r c ls) (Array r c ps)) / real (r * c)))"
    unfolding np_mean.simps Let_def cnt len using ne by (simp only: if_False)
  then show ?thesis
    unfolding accuracy_def eq by (simp only: sum.case np_times.simps of_int_numeral)
qed

subsection \<open>The model\<close>

text \<open>
  Claim C1. The predicted probability is logistic regression: for every batch \<open>X\<close> with
  five columns, weights \<open>Wm\<close> of shape (5,1) and bias \<open>bv\<close>, the value of \<open>y_hat\<close> has one
  row per example, holding \<open>1 / (1 + exp (- (W x + b)))\<close> for that example \<open>x\<close>.
\<close>

theorem y_hat_logistic:
  assumes "fd ''x'' = Some (Matrix X)" and "has_shape [n, 5] (Matrix X)"
    and "st ''W'' = Some (Matrix Wm)" and "has_shape [5, 1] (Matrix Wm)"
    and "st ''b'' = Some (Vector [bv])"
  shows "eval ideal fd st y_hat =
           Inr (Matrix (map (\<lambda>r. [1 / (1 + exp (- ((\<Sum>j<5. r ! j * Wm ! j ! 0) + bv)))]) X))"
proof -
  have X: "\<forall>r \<in> set X. length r = 5" and W: "length Wm = 5" "\<forall>w \<in> set Wm. length w = 1"
    using assms(2,4) by auto
  have "eval ideal fd st y_hat =
      Inr (Matrix (map (\<lambda>r. [logistic (sum_list (map2 (*) r (concat Wm)) + bv)]) X))"
    using eval_y_hat[of fd X st Wm bv ideal] assms(1,3,5) X W by (simp add: ideal_def)
  also have "map (\<lambda>r. [logistic (sum_list (map2 (*) r (concat Wm)) + bv)]) X =
      map (\<lambda>r. [1 / (1 + exp (- ((\<Sum>j<5. r ! j * Wm ! j ! 0) + bv)))]) X"
    using X W by (intro map_cong) (auto simp: logistic_def dot_as_sum)
  finally show ?thesis .
qed

theorem y_hat_logistic_witness:
  "[''x'' \<mapsto> Matrix [[1, 2, 3, 4, 5], [0, 0, 0, 0, 0 :: real]]] ''x'' =
     Some (Matrix [[1, 2, 3, 4, 5], [0, 0, 0, 0, 0]]) \<and>
   has_shape [2, 5] (Matrix [[1, 2, 3, 4, 5], [0, 0, 0, 0, 0 :: real]]) \<and>
   has_shape [5, 1] (Matrix [[1], [0], [0], [0], [0 :: real]]) \<and>
   eval ideal [''x'' \<mapsto> Matrix [[1, 2, 3, 4, 5], [0, 0, 0, 0, 0]]]
        [''W'' \<mapsto> Matrix [[1], [0], [0], [0], [0]], ''b'' \<mapsto> Vector [- 1]] y_hat =
     Inr (Matrix [[1 / 2], [1 / (1 + exp 1)]])"
proof -
  let ?X = "[[1, 2, 3, 4, 5], [0, 0, 0, 0, 0 :: real]]"
  let ?W = "[[1], [0], [0], [0], [0 :: real]]"
  let ?fd = "[''x'' \<mapsto> Matrix ?X]"
  let ?st = "[''W'' \<mapsto> Matrix ?W, ''b'' \<mapsto> Vector [- 1 :: real]]"
  have h: "?fd ''x'' = Some (Matrix ?X)" "has_shape [2, 5] (Matrix ?X)"
    "?st ''W'' = Some (Matrix ?W)" "has_shape [5, 1] (Matrix ?W)" "?st ''b'' = Some (Vector [- 1])"
    by simp_all
  have "eval ideal ?fd ?st y_hat =
      Inr (Matrix (map (\<lambda>r. [1 / (1 + exp (- ((\<Sum>j<5. r ! j * ?W ! j ! 0) + - 1)))]) ?X))"
    using h by (intro y_hat_logistic[of ?fd ?X 2 ?st ?W "- 1"])
  then show ?thesis using h by (simp add: lessThan_Suc eval_nat_numeral)
qed

subsection \<open>Training\<close>

text \<open>
  Claim C2. Training is plain gradient descent: the update list pairs \<open>W\<close> and \<open>b\<close>, in
  this order and nothing else, each with the expression \<open>p - 0.1 * g\<close>, where \<open>g\<close> is the
  gradient node of the loss with respect to \<open>p\<close>. Whenever the loss can be evaluated, the
  value of such an expression is the parameter's value with \<open>0.1\<close> times the backend's
  gradient subtracted elementwise.
\<close>

theorem updates_gradient_descent:
  "updates =
     [(W_var, Sub W_var (Mul (Const 0.1) (Grad loss W_var))),
      (b_var, Sub b_var (Mul (Const 0.1) (Grad loss b_var)))] \<and>
   map fst updates = params \<and>
   (\<forall>(p, new_p) \<in> set updates. \<forall>n t v.
      p = Variable n \<and> st n = Some t \<and> eval K fd st loss = Inr v \<longrightarrow>
      eval K fd st new_p = Inr (gd_step K (k_grad K loss p fd st) t))"
proof -
  have "eval K fd st (Sub (Variable n) (Mul (Const lr) (Grad loss (Variable n)))) =
      Inr (gd_step K (k_grad K loss (Variable n) fd st) t)"
    if "st n = Some t" "eval K fd st loss = Inr v" for n t v
    using that by (rule eval_new_value)
  then have "\<forall>(p, new_p) \<in> set updates. \<forall>n t v.
      p = Variable n \<and> st n = Some t \<and> eval K fd st loss = Inr v \<longrightarrow>
      eval K fd st new_p = Inr (gd_step K (k_grad K loss p fd st) t)"
    unfolding updates_eq by (auto simp: W_var_def b_var_def simp del: eval.simps)
  moreover have "updates =
     [(W_var, Sub W_var (Mul (Const 0.1) (Grad loss W_var))),
      (b_var, Sub b_var (Mul (Const 0.1) (Grad loss b_var)))]"
    by (simp add: updates_eq lr_def)
  moreover have "map fst updates = params"
    by (simp add: updates_eq params_def)
  ultimately show ?thesis by blast
qed

theorem updates_gradient_descent_witness:
  "(W_var, Sub W_var (Mul (Const 0.1) (Grad loss W_var))) \<in> set updates \<and>
   W_var = Variable ''W'' \<and>
   [''W'' \<mapsto> Matrix [[0], [0], [0], [0], [0 :: real]], ''b'' \<mapsto> Vector [0]] ''W'' =
     Some (Matrix [[0], [0], [0], [0], [0]]) \<and>
   eval ideal [''x'' \<mapsto> Matrix [[1, 0, 0, 0, 0]], ''y'' \<mapsto> Matrix [[1]]]
     [''W'' \<mapsto> Matrix [[0], [0], [0], [0], [0]], ''b'' \<mapsto> Vector [0]] loss = Inr (Scalar (ln 2)) \<and>
   eval ideal [''x'' \<mapsto> Matrix [[1, 0, 0, 0, 0]], ''y'' \<mapsto> Matrix [[1]]]
     [''W'' \<mapsto> Matrix [[0], [0], [0], [0], [0]], ''b'' \<mapsto> Vector [0]]
     (Sub W_var (Mul (Const 0.1) (Grad loss W_var))) =
   Inr (Matrix [[1 / 20], [0], [0], [0], [0]])"
proof -
  let ?W = "Matrix [[0], [0], [0], [0], [0 :: real]]"
  let ?st = "[''W'' \<mapsto> ?W, ''b'' \<mapsto> Vector [0 :: real]]"
  let ?fd = "[''x'' \<mapsto> Matrix [[1, 0, 0, 0, 0 :: real]], ''y'' \<mapsto> Matrix [[1]]]"
  let ?u = "(W_var, Sub W_var (Mul (Const 0.1) (Grad loss W_var)))"
  have all: "\<forall>(p, new_p) \<in> set updates. \<forall>n t v.
      p = Variable n \<and> ?st n = Some t \<and> eval ideal ?fd ?st loss = Inr v \<longrightarrow>
      eval ideal ?fd ?st new_p = Inr (gd_step ideal (k_grad ideal loss p ?fd ?st) t)"
    and eq: "updates = [?u, (b_var, Sub b_var (Mul (Const 0.1) (Grad loss b_var)))]"
    using updates_gradient_descent[of ?st ideal ?fd] by blast+
  have mem: "?u \<in> set updates" by (subst eq) simp
  have W: "W_var = Variable ''W''" by (simp add: W_var_def)
  have s: "?st ''W'' = Some ?W" by simp
  have l: "eval ideal ?fd ?st loss = Inr (Scalar (ln 2))"
    by (simp add: loss_def y_hat_def x_ph_def y_ph_def W_var_def b_var_def ideal_def logistic_def ln_div)
  have r: "residuals ?fd ?st = [- 1 / 2]"
    by (simp add: residuals_def logistic_def)
  have g: "gd_step ideal (k_grad ideal loss W_var ?fd ?st) ?W = Matrix [[1 / 20], [0], [0], [0], [0]]"
    by (simp add: ideal_def logistic_grad_def r step_def enumerate_eq_zip upt_rec)
  from all mem W s l have "eval ideal ?fd ?st (Sub W_var (Mul (Const 0.1) (Grad loss W_var))) =
      Inr (gd_step ideal (k_grad ideal loss W_var ?fd ?st) ?W)"
    by blast
  with mem W s l show ?thesis unfolding g by blast
qed

text \<open>
  Claim C3. For a batch of the declared shapes, a call of \<open>train_fn\<close> returns the loss
  evaluated under the values \<open>W\<close> and \<open>b\<close> have before the call, and leaves a store in
  which \<open>W\<close> and \<open>b\<close> have made one gradient-descent step, the gradients being those at
  the values before the call too. And whatever it is called on, a call that returns has
  returned that loss and made exactly that step.
\<close>

theorem train_fn_loss_then_updates:
  "(has_shape [n, 5] X \<and> has_shape [n, 1] Y \<and>
    st ''W'' = Some Wt \<and> has_shape [5, 1] Wt \<and> st ''b'' = Some bt \<and> has_shape [1] bt \<longrightarrow>
      (\<exists>v. eval K [''x'' \<mapsto> X, ''y'' \<mapsto> Y] st loss = Inr v \<and>
         train_fn K st [X, Y] =
           Inr (v,
                st(''W'' \<mapsto> gd_step K (k_grad K loss W_var [''x'' \<mapsto> X, ''y'' \<mapsto> Y] st) Wt,
                   ''b'' \<mapsto> gd_step K (k_grad K loss b_var [''x'' \<mapsto> X, ''y'' \<mapsto> Y] st) bt)))) \<and>
   (train_fn K st args = Inr (v', st') \<longrightarrow>
      (\<exists>X' Y' Wt' bt'. args = [X', Y'] \<and> st ''W'' = Some Wt' \<and> st ''b'' = Some bt' \<and>
         eval K [''x'' \<mapsto> X', ''y'' \<mapsto> Y'] st loss = Inr v' \<and>
         st' = st(''W'' \<mapsto> gd_step K (k_grad K loss W_var [''x'' \<mapsto> X', ''y'' \<mapsto> Y'] st) Wt',
                  ''b'' \<mapsto> gd_step K (k_grad K loss b_var [''x'' \<mapsto> X', ''y'' \<mapsto> Y'] st) bt')))"
proof (intro conjI impI)
  assume a: "has_shape [n, 5] X \<and> has_shape [n, 1] Y \<and>
    st ''W'' = Some Wt \<and> has_shape [5, 1] Wt \<and> st ''b'' = Some bt \<and> has_shape [1] bt"
  from train_fn_result[of n X Y st Wt bt K] a
  show "\<exists>v. eval K [''x'' \<mapsto> X, ''y'' \<mapsto> Y] st loss = Inr v \<and>
         train_fn K st [X, Y] =
           Inr (v,
                st(''W'' \<mapsto> gd_step K (k_grad K loss W_var [''x'' \<mapsto> X, ''y'' \<mapsto> Y] st) Wt,
                   ''b'' \<mapsto> gd_step K (k_grad K loss b_var [''x'' \<mapsto> X, ''y'' \<mapsto> Y] st) bt))"
    by blast
next
  assume "train_fn K st args = Inr (v', st')"
  then show "\<exists>X' Y' Wt' bt'. args = [X', Y'] \<and> st ''W'' = Some Wt' \<and> st ''b'' = Some bt' \<and>
         eval K [''x'' \<mapsto> X', ''y'' \<mapsto> Y'] st loss = Inr v' \<and>
         st' = st(''W'' \<mapsto> gd_step K (k_grad K loss W_var [''x'' \<mapsto> X', ''y'' \<mapsto> Y'] st) Wt',
                  ''b'' \<mapsto> gd_step K (k_grad K loss b_var [''x'' \<mapsto> X', ''y'' \<mapsto> Y'] st) bt')"
    by (rule train_fn_returned)
qed

theorem train_fn_loss_then_updates_witness:
  "has_shape [1, 5] (Matrix [[1, 0, 0, 0, 0 :: real]]) \<and>
   has_shape [1, 1] (Matrix [[1 :: real]]) \<and>
   has_shape [5, 1] (Matrix [[0], [0], [0], [0], [0 :: real]]) \<and>
   has_shape [1] (Vector [0 :: real]) \<and>
   train_fn ideal [''W'' \<mapsto> Matrix [[0], [0], [0], [0], [0]], ''b'' \<mapsto> Vector [0]]
     [Matrix [[1, 0, 0, 0, 0]], Matrix [[1]]] =
   Inr (Scalar (ln 2),
        [''W'' \<mapsto> Matrix [[1 / 20], [0], [0], [0], [0]], ''b'' \<mapsto> Vector [1 / 20]])"
proof -
  let ?X = "Matrix [[1, 0, 0, 0, 0 :: real]]" and ?Y = "Matrix [[1 :: real]]"
  let ?W = "Matrix [[0], [0], [0], [0], [0 :: real]]" and ?b = "Vector [0 :: real]"
  let ?st = "[''W'' \<mapsto> ?W, ''b'' \<mapsto> ?b]"
  let ?fd = "[''x'' \<mapsto> ?X, ''y'' \<mapsto> ?Y]"
  have h: "has_shape [1, 5] ?X" "has_shape [1, 1] ?Y" "?st ''W'' = Some ?W" "has_shape [5, 1] ?W"
    "?st ''b'' = Some ?b" "has_shape [1] ?b"
    by simp_all
  have l: "eval ideal ?fd ?st loss = Inr (Scalar (ln 2))"
    by (simp add: loss_def y_hat_def x_ph_def y_ph_def W_var_def b_var_def ideal_def logistic_def ln_div)
  have r: "residuals ?fd ?st = [- 1 / 2]"
    by (simp add: residuals_def logistic_def)
  have gW: "gd_step ideal (k_grad ideal loss W_var ?fd ?st) ?W = Matrix [[1 / 20], [0], [0], [0], [0]]"
    by (simp add: ideal_def logistic_grad_def r step_def enumerate_eq_zip upt_rec)
  have gb: "gd_step ideal (k_grad ideal loss b_var ?fd ?st) ?b = Vector [1 / 20]"
    by (simp add: ideal_def logistic_grad_def r step_def enumerate_eq_zip upt_rec W_var_def b_var_def)
  from train_fn_loss_then_updates[of 1 ?X ?Y ?st ?W ?b ideal, THEN conjunct1] h
  have "train_fn ideal ?st [?X, ?Y] =
    Inr (Scalar (ln 2),
         ?st(''W'' \<mapsto> gd_step ideal (k_grad ideal loss W_var ?fd ?st) ?W,
             ''b'' \<mapsto> gd_step ideal (k_grad ideal loss b_var ?fd ?st) ?b))"
    unfolding l by blast
  then show ?thesis using h unfolding gW gb by simp
qed

text \<open>
  Claim C5. The loss is the mean of the elementwise binary cross-entropy of \<open>y_hat\<close> and
  \<open>y\<close>, and \<open>train_fn\<close> returns one scalar for a batch of any number \<open>n\<close> of examples:
  the backend's mean of the \<open>n\<close> cross-entropies.
\<close>

theorem train_fn_returns_scalar:
  assumes "has_shape [n, 5] X" and "has_shape [n, 1] (Matrix Ym)" and "params_ok st"
  shows "loss = Mean (Binary_crossentropy y_hat y_ph) \<and>
         (\<exists>P st'. eval K [''x'' \<mapsto> X, ''y'' \<mapsto> Matrix Ym] st y_hat = Inr (Matrix P) \<and>
            train_fn K st [X, Matrix Ym] =
              Inr (Scalar (k_mean K (map2 (k_bce K) (concat P) (concat Ym))), st'))"
proof -
  let ?fd = "[''x'' \<mapsto> X, ''y'' \<mapsto> Matrix Ym]"
  from assms(3) obtain Wt bt where p: "st ''W'' = Some Wt" "has_shape [5, 1] Wt"
      "st ''b'' = Some bt" "has_shape [1] bt"
    by (rule params_okE)
  from eval_y_hat_shape[of ?fd X n st Wt bt K] assms(1) p
  obtain P where P: "eval K ?fd st y_hat = Inr (Matrix P)" "length P = n" "\<forall>r \<in> set P. length r = 1"
    by auto
  have "map length P = replicate n 1" using P(2,3) by (rule map_length_rows)
  moreover have "map length Ym = replicate n 1" using assms(2) by (intro map_length_rows) auto
  ultimately have same: "map length P = map length Ym" by simp
  have l: "eval K ?fd st loss = Inr (Scalar (k_mean K (map2 (k_bce K) (concat P) (concat Ym))))"
    using P(1) same by (simp add: loss_def y_ph_def concat_map2_map2)
  from train_fn_result[OF assms(1,2) p, of K] obtain v st' where
    "eval K ?fd st loss = Inr (Scalar v)" "train_fn K st [X, Matrix Ym] = Inr (Scalar v, st')"
    by blast
  with l P(1) show ?thesis by (auto simp: loss_def)
qed

theorem train_fn_returns_scalar_witness:
  "has_shape [2, 5] (Matrix [[1, 0, 0, 0, 0], [0, 1, 0, 0, 0 :: real]]) \<and>
   has_shape [2, 1] (Matrix [[1], [0 :: real]]) \<and>
   params_ok [''W'' \<mapsto> Matrix [[0], [0], [0], [0], [0 :: real]], ''b'' \<mapsto> Vector [0]] \<and>
   (\<exists>P st'. eval ideal [''x'' \<mapsto> Matrix [[1, 0, 0, 0, 0], [0, 1, 0, 0, 0]], ''y'' \<mapsto> Matrix [[1], [0]]]
        [''W'' \<mapsto> Matrix [[0], [0], [0], [0], [0]], ''b'' \<mapsto> Vector [0]] y_hat = Inr (Matrix P) \<and>
      train_fn ideal [''W'' \<mapsto> Matrix [[0], [0], [0], [0], [0]], ''b'' \<mapsto> Vector [0]]
        [Matrix [[1, 0, 0, 0, 0], [0, 1, 0, 0, 0]], Matrix [[1], [0]]] =
      Inr (Scalar (k_mean ideal (map2 (k_bce ideal) (concat P) (concat [[1], [0]]))), st'))"
proof -
  let ?st = "[''W'' \<mapsto> Matrix [[0], [0], [0], [0], [0 :: real]], ''b'' \<mapsto> Vector [0]]"
  have h: "has_shape [2, 5] (Matrix [[1, 0, 0, 0, 0], [0, 1, 0, 0, 0 :: real]])"
    "has_shape [2, 1] (Matrix [[1], [0 :: real]])" "params_ok ?st"
    by (simp_all add: params_ok_def)
  from train_fn_returns_scalar[OF h, of ideal] h show ?thesis by blast
qed

subsection \<open>Shape consistency\<close>

text \<open>
  Claim C7. The declared shapes fit together. For every \<open>n\<close>, the shapes (n,5) and
  (n,1) fit the declarations of \<open>x\<close> and \<open>y\<close>; with \<open>W\<close> of shape (5,1) and \<open>b\<close> of
  shape (1,), \<open>y_hat\<close> evaluates to a tensor of shape (n,1), the shape of the targets, and
  a call of \<open>train_fn\<close> succeeds and keeps the shapes of \<open>W\<close> and \<open>b\<close>. On data of the
  shapes the notebook generates, (16,5) and (16,1), with initial weights of shape (5,1),
  the thousand training calls and the prediction all succeed, and the predictions have
  shape (16,1).
\<close>

theorem shapes_consistent:
  "fits (placeholder_shape x_ph) [n, 5] \<and> fits (placeholder_shape y_ph) [n, 1] \<and>
   (fd ''x'' = Some X \<and> has_shape [n, 5] X \<and> params_ok st \<longrightarrow>
      (\<exists>P. eval K fd st y_hat = Inr P \<and> has_shape [n, 1] P)) \<and>
   (has_shape [n, 5] X \<and> has_shape [n, 1] Y \<and> params_ok st \<longrightarrow>
      (\<exists>v st'. train_fn K st [X, Y] = Inr (Scalar v, st') \<and> params_ok st')) \<and>
   (has_shape [16, 5] X_batch \<and> has_shape [16, 1] y_batch \<and> has_shape [5, 1] W0 \<longrightarrow>
      params_ok (initial_store K W0) \<and>
      (\<exists>P s. notebook K W0 X_batch y_batch = Inr (P, s) \<and> has_shape [16, 1] P))"
proof (intro conjI impI)
  show "fits (placeholder_shape x_ph) [n, 5]" by (simp add: x_ph_def)
  show "fits (placeholder_shape y_ph) [n, 1]" by (simp add: y_ph_def)
next
  assume a: "fd ''x'' = Some X \<and> has_shape [n, 5] X \<and> params_ok st"
  then obtain Wt bt where p: "st ''W'' = Some Wt" "has_shape [5, 1] Wt"
      "st ''b'' = Some bt" "has_shape [1] bt"
    by (auto elim: params_okE)
  from eval_y_hat_shape[of fd X n st Wt bt K] a p
  show "\<exists>P. eval K fd st y_hat = Inr P \<and> has_shape [n, 1] P" by auto
next
  assume "has_shape [n, 5] X \<and> has_shape [n, 1] Y \<and> params_ok st"
  then show "\<exists>v st'. train_fn K st [X, Y] = Inr (Scalar v, st') \<and> params_ok st'"
    by (intro train_fn_ok) auto
next
  assume "has_shape [16, 5] X_batch \<and> has_shape [16, 1] y_batch \<and> has_shape [5, 1] W0"
  then show "params_ok (initial_store K W0)" by (simp add: params_ok_initial)
next
  assume "has_shape [16, 5] X_batch \<and> has_shape [16, 1] y_batch \<and> has_shape [5, 1] W0"
  then show "\<exists>P s. notebook K W0 X_batch y_batch = Inr (P, s) \<and> has_shape [16, 1] P"
    by (intro notebook_ok) auto
qed

theorem shapes_consistent_witness:
  "fits (placeholder_shape x_ph) [16, 5] \<and> fits (placeholder_shape y_ph) [16, 1] \<and>
   has_shape [16, 5] (Matrix (replicate 16 [1, 2, 3, 4, 5 :: real])) \<and>
   has_shape [16, 1] (Matrix (replicate 16 [1 :: real])) \<and>
   has_shape [5, 1] (Matrix [[0], [0], [0], [0], [0 :: real]]) \<and>
   (\<exists>P s. notebook ideal (Matrix [[0], [0], [0], [0], [0]])
       (Matrix (replicate 16 [1, 2, 3, 4, 5])) (Matrix (replicate 16 [1])) = Inr (P, s) \<and>
     has_shape [16, 1] P)"
proof -
  have h: "has_shape [16, 5] (Matrix (replicate 16 [1, 2, 3, 4, 5 :: real])) \<and>
      has_shape [16, 1] (Matrix (replicate 16 [1 :: real])) \<and>
      has_shape [5, 1] (Matrix [[0], [0], [0], [0], [0 :: real]])"
    by simp
  from shapes_consistent[of 16 Map.empty "Matrix []" Map.empty ideal "Matrix []"
      "Matrix (replicate 16 [1, 2, 3, 4, 5])" "Matrix (replicate 16 [1])" "Matrix [[0], [0], [0], [0], [0]]"] h
  show ?thesis by blast
qed

subsection \<open>Prediction\<close>

text \<open>
  Claim C8. \<open>predict\<close> has no update list: a call that returns leaves the store, and so
  \<open>W\<close> and \<open>b\<close>, as they were, and the same call on the store it returns gives the same
  predictions again. On a batch with five columns it does return, with one prediction
  per example.
\<close>

theorem predict_no_side_effect:
  "(predict K st args = Inr (P, st') \<longrightarrow>
      st' = st \<and> st' ''W'' = st ''W'' \<and> st' ''b'' = st ''b'' \<and> predict K st' args = Inr (P, st')) \<and>
   (has_shape [n, 5] X \<and> params_ok st \<longrightarrow>
      (\<exists>Q. predict K st [X] = Inr (Q, st) \<and> has_shape [n, 1] Q))"
proof (intro conjI impI)
  assume "has_shape [n, 5] X \<and> params_ok st"
  then show "\<exists>Q. predict K st [X] = Inr (Q, st) \<and> has_shape [n, 1] Q"
    by (intro predict_ok) auto
qed (auto simp: predict_eq split: sum.splits if_splits)

theorem predict_no_side_effect_witness:
  "has_shape [1, 5] (Matrix [[1, 2, 3, 4, 5 :: real]]) \<and>
   params_ok [''W'' \<mapsto> Matrix [[0], [0], [0], [0], [0 :: real]], ''b'' \<mapsto> Vector [0]] \<and>
   predict ideal [''W'' \<mapsto> Matrix [[0], [0], [0], [0], [0]], ''b'' \<mapsto> Vector [0]]
     [Matrix [[1, 2, 3, 4, 5]]] =
     Inr (Matrix [[1 / 2]], [''W'' \<mapsto> Matrix [[0], [0], [0], [0], [0]], ''b'' \<mapsto> Vector [0]])"
proof -
  let ?st = "[''W'' \<mapsto> Matrix [[0], [0], [0], [0], [0 :: real]], ''b'' \<mapsto> Vector [0]]"
  let ?X = "Matrix [[1, 2, 3, 4, 5 :: real]]"
  have h: "has_shape [1, 5] ?X \<and> params_ok ?st" by (simp add: params_ok_def)
  have v: "eval ideal [''x'' \<mapsto> ?X] ?st y_hat = Inr (Matrix [[1 / 2]])"
    by (simp add: x_ph_def y_hat_def W_var_def b_var_def ideal_def logistic_def)
  from predict_no_side_effect[of ideal ?st "[?X]" _ _ 1 ?X, THEN conjunct2] h
  obtain Q where q: "predict ideal ?st [?X] = Inr (Q, ?st)" by blast
  then have "Q = Matrix [[1 / 2]]" using v by (simp add: predict_eq x_ph_def)
  with q h show ?thesis by blast
qed

subsection \<open>Accuracy\<close>

text \<open>
  Claim C9, as stated, fails twice. On arrays without elements the mean is \<open>NaN\<close>, which
  is not between 0 and 100. And the value is computed in float64: with one agreement in
  three positions it is the double \<open>2345624805922133 / 70368744177664\<close>, not \<open>100 / 3\<close>.
\<close>

theorem accuracy_not_exact:
  "accuracy (Array 0 1 []) (Array 0 1 []) = Inr NaN \<and> \<not> between 0 100 NaN \<and>
   accuracy (Array 3 1 [[1], [0], [0]]) (Array 3 1 [[3 / 4], [3 / 4], [3 / 4]]) =
     Inr (Num (2345624805922133 / 70368744177664)) \<and>
   (2345624805922133 / 70368744177664 :: real) \<noteq> 100 * (1 / 3)"
proof -
  have e: "accuracy (Array 0 1 []) (Array 0 1 []) = Inr NaN"
    by (simp add: accuracy_def broadcast_dim_def)
  have "np_equal (Array 3 1 [[1], [0], [0]]) (astype_int (np_greater (Array 3 1 [[3 / 4], [3 / 4], [3 / 4]]) 0.5)) =
      Inr (Array 3 1 [[True], [False], [False]])"
    by (simp add: broadcast_dim_def)
  then have "accuracy (Array 3 1 [[1], [0], [0]]) (Array 3 1 [[3 / 4], [3 / 4], [3 / 4]]) =
      Inr (Num (float64 (float64 (1 / 3) * 100)))"
    by (simp add: accuracy_def)
  then have v: "accuracy (Array 3 1 [[1], [0], [0]]) (Array 3 1 [[3 / 4], [3 / 4], [3 / 4]]) =
      Inr (Num (2345624805922133 / 70368744177664))"
    by (simp only: float64_third float64_third_100)
  from e v show ?thesis by simp
qed

text \<open>
  Claim C9, amended. For every array of 0/1 labels with at least one element and every
  array of predictions of the same shape, the accuracy is a number between 0 and 100: it
  is 100 times the fraction of positions where the prediction, thresholded at \<open>0.5\<close>,
  agrees with the label, with the quotient and the product each rounded to float64, and
  so within \<open>100 / 2 ^ 52\<close> of the exact value.
\<close>

theorem accuracy_bounded:
  assumes "valid_array (Array r c ls)" and "valid_array (Array r c ps)" and "0 < r * c"
    and "\<forall>l \<in> set (concat ls). l = 0 \<or> l = 1"
  shows "\<exists>v. accuracy (Array r c ls) (Array r c ps) = Inr (Num v) \<and>
           v = float64 (float64 (real (agreements (Array r c ls) (Array r c ps)) / real (r * c)) * 100) \<and>
           between 0 100 (Num v) \<and>
           \<bar>v - 100 * (real (agreements (Array r c ls) (Array r c ps)) / real (r * c))\<bar> \<le> 100 / 2 ^ 52"
proof -
  let ?q = "real (agreements (Array r c ls) (Array r c ps)) / real (r * c)"
  let ?m = "float64 ?q"
  let ?v = "float64 (?m * 100)"
  have total: "length (concat ls) = r * c" using assms(1) by (auto intro: length_concat_rows)
  have pos: "0 < real (r * c)" using assms(3) by simp
  have "agreements (Array r c ls) (Array r c ps) \<le> r * c"
    using agreements_le[of r c ls r c ps] unfolding total .
  then have "real (agreements (Array r c ls) (Array r c ps)) \<le> real (r * c)"
    by (rule of_nat_mono)
  then have q1: "?q \<le> 1" using pos by (simp add: divide_le_eq_1)
  have q0: "0 \<le> ?q" by simp
  have m0: "0 \<le> ?m" using q0 by (rule float64_nonneg)
  have "?m \<le> float64 1" using q0 q1 by (rule float64_mono)
  then have m1: "?m \<le> 1" by (simp only: float64_1)
  have t0: "0 \<le> ?m * 100" using m0 by simp
  have "?m * 100 \<le> 1 * 100" using m1 by (intro mult_right_mono) simp_all
  then have t1: "?m * 100 \<le> 100" by simp
  have v0: "0 \<le> ?v" using t0 by (rule float64_nonneg)
  have "?v \<le> float64 100" using t0 t1 by (rule float64_mono)
  then have v1: "?v \<le> 100" by (simp only: float64_100)
  have e1: "\<bar>?m - ?q\<bar> \<le> ?q / 2 ^ 53" using q0 by (rule float64_error)
  have "?q / 2 ^ 53 \<le> 1 / 2 ^ 53" using q1 by (intro divide_right_mono) simp_all
  with e1 have e1': "\<bar>?m - ?q\<bar> \<le> 1 / 2 ^ 53" by linarith
  have e2: "\<bar>?v - ?m * 100\<bar> \<le> ?m * 100 / 2 ^ 53" using t0 by (rule float64_error)
  have "?m * 100 / 2 ^ 53 \<le> 100 / 2 ^ 53" using t1 by (intro divide_right_mono) simp_all
  with e2 have e2': "\<bar>?v - ?m * 100\<bar> \<le> 100 / 2 ^ 53" by linarith
  have "\<bar>?v - 100 * ?q\<bar> \<le> 100 / 2 ^ 53 + 100 * (1 / 2 ^ 53)"
    using e1' e2' by (rule two_roundings)
  also have "\<dots> = 100 / 2 ^ 52" by simp
  finally have err: "\<bar>?v - 100 * ?q\<bar> \<le> 100 / 2 ^ 52" .
  from accuracy_value[OF assms] v0 v1 err show ?thesis by (simp del: agreements.simps)
qed

theorem accuracy_bounded_witness:
  "valid_array (Array 4 1 [[1], [0], [1], [0 :: int]]) \<and>
   valid_array (Array 4 1 [[7 / 8], [1 / 4], [3 / 8], [1 / 2 :: real]]) \<and>
   (0 :: nat) < 4 * 1 \<and>
   accuracy (Array 4 1 [[1], [0], [1], [0]]) (Array 4 1 [[7 / 8], [1 / 4], [3 / 8], [1 / 2]]) =
     Inr (Num 75)"
proof -
  let ?y = "Array 4 1 [[1], [0], [1], [0 :: int]]"
  let ?p = "Array 4 1 [[7 / 8], [1 / 4], [3 / 8], [1 / 2 :: real]]"
  have h: "valid_array ?y" "valid_array ?p" "(0 :: nat) < 4 * 1"
    "\<forall>l \<in> set (concat [[1], [0], [1], [0 :: int]]). l = 0 \<or> l = 1"
    by simp_all
  have a: "agreements ?y ?p = 3" by simp
  have m: "float64 (3 / 4) = 3 / 4"
    using float64_binade[of "3 / 4" "- 1"] by (simp add: rne_def Let_def powr_neg_numeral)
  have t: "float64 75 = 75"
    using float64_binade[of 75 6] by (simp add: rne_def Let_def powr_neg_numeral)
  from accuracy_bounded[OF h] obtain v where
    "accuracy ?y ?p = Inr (Num v)" "v = float64 (float64 (real (agreements ?y ?p) / real (4 * 1 :: nat)) * 100)"
    by blast
  then have "accuracy ?y ?p = Inr (Num 75)" unfolding a by (simp add: m t)
  with h(1,2,3) show ?thesis by blast
qed

end
